theory Spec2Isabelle
  imports Complex_Main
begin

section \<open>Bulk scraper: batch planning, resolution phase and polling phase\<close>

text \<open>
  A shallow embedding of \<^verbatim>\<open>bulk_scraper.py\<close>. Python integers are \<^typ>\<open>int\<close>.
  Python's true division of two integers yields the float nearest to the exact quotient;
  the model keeps the exact quotient as a \<^typ>\<open>rat\<close>. For operands below \<open>2^52\<close> the
  built-ins \<^verbatim>\<open>round\<close> and \<^verbatim>\<open>math.ceil\<close> applied to that float return the same
  integer as on the exact quotient, so the integer results of the model are those of the
  program on every work-set a run can hold; durations and delays are exact where the
  program holds their nearest float.
\<close>

subsection \<open>Errors\<close>

datatype py_error = ZeroDivisionError | KeyError | TypeError | AttributeError

subsection \<open>Batch planning\<close>

text \<open>
  The built-in \<^verbatim>\<open>round(x)\<close> with one argument: the nearest integer, a tie going to the
  even neighbour.
\<close>

definition py_round :: "rat \<Rightarrow> int" where
  "py_round x =
     (let f = \<lfloor>x\<rfloor>; d = x - of_int f
      in if d < 1 / 2 then f
         else if 1 / 2 < d then f + 1
         else if even f then f else f + 1)"

text \<open>\<^verbatim>\<open>a / b\<close> on integers: raises on a zero divisor.\<close>

definition true_div :: "int \<Rightarrow> int \<Rightarrow> py_error + rat" where
  "true_div a b = (if b = 0 then Inl ZeroDivisionError else Inr (of_int a / of_int b))"

text \<open>
  \<^verbatim>\<open>calculate_batch_parameters(total_requests, interval_seconds, min_batch_size,
  max_batch_size)\<close>, lines 432 to 457. Both divisions can raise.
\<close>

definition calculate_batch_parameters ::
  "int \<Rightarrow> int \<Rightarrow> int \<Rightarrow> int \<Rightarrow> py_error + (int \<times> rat)" where
  "calculate_batch_parameters total_requests interval_seconds min_batch_size max_batch_size =
     (if total_requests = 0 then Inr (0, 0)
      else case true_div total_requests interval_seconds of
        Inl e \<Rightarrow> Inl e
      | Inr requests_per_second \<Rightarrow>
          (let ideal_batch_size = max 1 (py_round requests_per_second);
               batch_size = max min_batch_size (min ideal_batch_size max_batch_size)
           in case true_div total_requests batch_size of
                Inl e \<Rightarrow> Inl e
              | Inr q \<Rightarrow>
                  (let num_batches = \<lceil>q\<rceil>;
                       batch_interval =
                         (if 1 < num_batches
                          then of_int interval_seconds / of_int num_batches else 0)
                   in Inr (batch_size, batch_interval))))"

subsection \<open>The planner as the specification words it\<close>

text \<open>
  The reference definition of \<open>BatchPlanner.plan\<close>, written from the specification
  and not from the code: a total function on numbers, with \<open>round\<close> the rounding of
  the source language and \<open>clamp\<close> to the interval \<open>[lo, hi]\<close>.
\<close>

definition clamp :: "int \<Rightarrow> int \<Rightarrow> int \<Rightarrow> int" where
  "clamp x lo hi = max lo (min x hi)"


subsection \<open>JSON payloads and the identifier field\<close>

text \<open>
  A decoded JSON value. \<open>JNull\<close> is Python's \<^verbatim>\<open>None\<close>; \<open>JObj kvs\<close> is the dict whose
  value at \<open>k\<close> is \<open>map_of kvs k\<close>.
\<close>

datatype json =
    JNull
  | JBool bool
  | JNum rat
  | JStr string
  | JArr "json list"
  | JObj "(string \<times> json) list"

text \<open>Truth value of a payload, as \<^verbatim>\<open>if data:\<close> tests it.\<close>

fun truthy :: "json \<Rightarrow> bool" where
  "truthy JNull = False"
| "truthy (JBool b) = b"
| "truthy (JNum n) = (n \<noteq> 0)"
| "truthy (JStr s) = (s \<noteq> [])"
| "truthy (JArr xs) = (xs \<noteq> [])"
| "truthy (JObj kvs) = (kvs \<noteq> [])"

text \<open>
  \<^verbatim>\<open>value[key]\<close> with a string key: a missing key of a dict raises \<open>KeyError\<close>, every
  other kind of value raises \<open>TypeError\<close>.
\<close>

fun subscript :: "json \<Rightarrow> string \<Rightarrow> py_error + json" where
  "subscript (JObj kvs) k = (case map_of kvs k of None \<Rightarrow> Inl KeyError | Some v \<Rightarrow> Inr v)"
| "subscript JNull k = Inl TypeError"
| "subscript (JBool b) k = Inl TypeError"
| "subscript (JNum n) k = Inl TypeError"
| "subscript (JStr s) k = Inl TypeError"
| "subscript (JArr xs) k = Inl TypeError"

text \<open>\<^verbatim>\<open>str.strip()\<close> on the ASCII white space characters.\<close>

definition is_space :: "char \<Rightarrow> bool" where
  "is_space c = ((of_char c :: nat) \<in> {9, 10, 11, 12, 13, 28, 29, 30, 31, 32})"

definition strip :: "string \<Rightarrow> string" where
  "strip s = rev (dropWhile is_space (rev (dropWhile is_space s)))"

text \<open>
  \<^verbatim>\<open>data["location"]["uln"].strip()\<close>, lines 351 and 424. Only a string has
  \<^verbatim>\<open>strip\<close>.
\<close>

definition location_uln :: "json \<Rightarrow> py_error + string" where
  "location_uln data =
     (case subscript data ''location'' of
        Inl e \<Rightarrow> Inl e
      | Inr location \<Rightarrow>
          (case subscript location ''uln'' of
             Inl e \<Rightarrow> Inl e
           | Inr u \<Rightarrow> (case u of JStr s \<Rightarrow> Inr (strip s) | _ \<Rightarrow> Inl AttributeError)))"

subsection \<open>Dicts in insertion order\<close>

text \<open>
  A Python dict with string keys, as the list of its items in insertion order; the keys
  are distinct. Assigning to a present key keeps its position.
\<close>

type_synonym 'v dict = "(string \<times> 'v) list"

definition keys :: "'v dict \<Rightarrow> string list" where
  "keys d = map fst d"

definition dict_set :: "'v dict \<Rightarrow> string \<Rightarrow> 'v \<Rightarrow> 'v dict" where
  "dict_set d k v =
     (if k \<in> set (keys d) then map (\<lambda>(k', v'). if k' = k then (k', v) else (k', v')) d
      else d @ [(k, v)])"

definition dict_update :: "'v dict \<Rightarrow> 'v dict \<Rightarrow> 'v dict" where
  "dict_update d other = foldl (\<lambda>acc (k, v). dict_set acc k v) d other"

subsection \<open>The environment and the state of a run\<close>

text \<open>
  What one HTTP exchange does inside \<^verbatim>\<open>make_request\<close>: a response with its status
  and decoded body, a time-out, or any other failure of the client. A request task
  either completes with an exchange or lets an exception escape to \<^verbatim>\<open>gather\<close>.
\<close>

datatype exchange = Response int json | Timeout | ClientError

datatype task = Completes exchange | Escapes

datatype write_result = Written | Refused | Torn

text \<open>
  The environment answers the \<open>k\<close>-th interaction of the run: a reading of the event
  loop's clock, a reading of the UTC wall clock (already formatted), the outcome of a
  request for a key, the outcome of a file write.
\<close>

record env =
  loop_time :: "nat \<Rightarrow> rat"
  utc_now :: "nat \<Rightarrow> string"
  reply :: "nat \<Rightarrow> string \<Rightarrow> task"
  write_file :: "nat \<Rightarrow> write_result"

text \<open>The observable effects of a run, in the order they happen.\<close>

datatype event =
    LocationRequest string
  | StatusRequest string
  | LocationSaved string
  | StatusSaved string string string
  | Parsed string
  | FailedCodesFlush "string set"
  | Sleep rat
  | OverrunWarning

text \<open>
  The file \<^verbatim>\<open><code>/<code>.json\<close> of the data directory: missing, present but not
  decodable, or holding a decoded payload.
\<close>

datatype file_state = Absent | Unreadable | Holds json

record world =
  loc_files :: "string \<Rightarrow> file_state"
  failed_store :: "string set option"
  trace :: "event list"
  tick :: nat

definition emit :: "event \<Rightarrow> world \<Rightarrow> world" where
  "emit e w = w\<lparr>trace := trace w @ [e]\<rparr>"

definition step :: "world \<Rightarrow> world" where
  "step w = w\<lparr>tick := Suc (tick w)\<rparr>"

definition exists_file :: "file_state \<Rightarrow> bool" where
  "exists_file f = (f \<noteq> Absent)"

text \<open>\<^verbatim>\<open>load_json\<close>, lines 238 to 246: \<^verbatim>\<open>None\<close> unless the file decodes.\<close>

definition load_json :: "file_state \<Rightarrow> json" where
  "load_json f = (case f of Holds data \<Rightarrow> data | _ \<Rightarrow> JNull)"

text \<open>
  \<^verbatim>\<open>load_failed_codes\<close> and \<^verbatim>\<open>save_failed_codes\<close>, lines 161 to 181. The store
  holds a list of codes or is missing or unreadable; a failed write is logged only.
\<close>

definition load_failed_codes :: "world \<Rightarrow> string set" where
  "load_failed_codes w = (case failed_store w of None \<Rightarrow> {} | Some s \<Rightarrow> s)"

definition save_failed_codes :: "env \<Rightarrow> string set \<Rightarrow> world \<Rightarrow> world" where
  "save_failed_codes env failed_codes w =
     (let w1 = emit (FailedCodesFlush failed_codes) (step w)
      in case write_file env (tick w) of
           Written \<Rightarrow> w1\<lparr>failed_store := Some failed_codes\<rparr>
         | Refused \<Rightarrow> w1
         | Torn \<Rightarrow> w1\<lparr>failed_store := None\<rparr>)"

text \<open>\<^verbatim>\<open>save_json\<close>, lines 225 to 235, on a location file and on a status file.\<close>

definition save_location_json :: "env \<Rightarrow> string \<Rightarrow> json \<Rightarrow> world \<Rightarrow> bool \<times> world" where
  "save_location_json env code data w =
     (let w1 = step w
      in case write_file env (tick w) of
           Written \<Rightarrow>
             (True, emit (LocationSaved code)
                      (w1\<lparr>loc_files := (loc_files w1)(code := Holds data)\<rparr>))
         | Refused \<Rightarrow> (False, w1)
         | Torn \<Rightarrow> (False, w1\<lparr>loc_files := (loc_files w1)(code := Unreadable)\<rparr>))"

definition save_status_json ::
  "env \<Rightarrow> string \<Rightarrow> string \<Rightarrow> string \<Rightarrow> world \<Rightarrow> bool \<times> world" where
  "save_status_json env code uln request_time w =
     (let w1 = step w
      in case write_file env (tick w) of
           Written \<Rightarrow> (True, emit (StatusSaved code uln request_time) w1)
         | Refused \<Rightarrow> (False, w1)
         | Torn \<Rightarrow> (False, w1))"

subsection \<open>Requests\<close>

text \<open>\<^verbatim>\<open>make_request\<close>, lines 184 to 206: the payload and the status code.\<close>

fun make_request :: "exchange \<Rightarrow> json \<times> int" where
  "make_request (Response status_code body) =
     (if status_code = 200 then (body, status_code) else (JNull, status_code))"
| "make_request Timeout = (JNull, 0)"
| "make_request ClientError = (JNull, 0)"

text \<open>
  One entry of what \<^verbatim>\<open>asyncio.gather(*tasks, return_exceptions=True)\<close> returns: the
  exception of the task, or the pair it returned.
\<close>

datatype gathered = Raised | Returned json int

fun gather1 :: "task \<Rightarrow> gathered" where
  "gather1 Escapes = Raised"
| "gather1 (Completes x) = (case make_request x of (data, status_code) \<Rightarrow> Returned data status_code)"

text \<open>All tasks of a batch are issued, and one result per task comes back, in order.\<close>

fun gather :: "env \<Rightarrow> (string \<Rightarrow> event) \<Rightarrow> string list \<Rightarrow> world \<Rightarrow> gathered list \<times> world" where
  "gather env request [] w = ([], w)"
| "gather env request (k # ks) w =
     (case gather env request ks (emit (request k) (step w)) of
        (rs, w') \<Rightarrow> (gather1 (reply env (tick w) k) # rs, w'))"

subsection \<open>Resolution of one batch\<close>

text \<open>
  The body of the loop over the results in \<^verbatim>\<open>scrape_location_batch\<close>, lines 332 to
  357, on the pair \<open>(location_to_uln, new_failed_codes)\<close>. Only \<open>KeyError\<close> is caught.
\<close>

fun location_result ::
  "env \<Rightarrow> string \<Rightarrow> gathered \<Rightarrow> string dict \<times> string set \<Rightarrow> world \<Rightarrow>
   (py_error + string dict \<times> string set) \<times> world" where
  "location_result env code Raised (location_to_uln, new_failed_codes) w =
     (Inr (location_to_uln, new_failed_codes), w)"
| "location_result env code (Returned data status_code) (location_to_uln, new_failed_codes) w =
     (if status_code = 404 then (Inr (location_to_uln, insert code new_failed_codes), w)
      else if data = JNull then (Inr (location_to_uln, new_failed_codes), w)
      else case location_uln data of
             Inl e \<Rightarrow>
               (if e = KeyError then (Inr (location_to_uln, new_failed_codes), w)
                else (Inl e, w))
           | Inr uln \<Rightarrow>
               (case save_location_json env code data w of
                  (saved, w') \<Rightarrow>
                    (if saved then (Inr (dict_set location_to_uln code uln, new_failed_codes), w')
                     else (Inr (location_to_uln, new_failed_codes), w'))))"

fun location_results ::
  "env \<Rightarrow> (string \<times> gathered) list \<Rightarrow> string dict \<times> string set \<Rightarrow> world \<Rightarrow>
   (py_error + string dict \<times> string set) \<times> world" where
  "location_results env [] acc w = (Inr acc, w)"
| "location_results env ((code, result) # rest) acc w =
     (case location_result env code result acc w of
        (Inl e, w') \<Rightarrow> (Inl e, w')
      | (Inr acc', w') \<Rightarrow> location_results env rest acc' w')"

text \<open>The codes for which \<^verbatim>\<open>scrape_location_batch\<close> creates a task, lines 313 to 323.\<close>

definition location_tasks :: "(string \<Rightarrow> file_state) \<Rightarrow> string set \<Rightarrow> string list \<Rightarrow> string list" where
  "location_tasks files failed_codes location_codes =
     filter (\<lambda>code. code \<notin> failed_codes \<and> \<not> exists_file (files code)) location_codes"

text \<open>\<^verbatim>\<open>scrape_location_batch\<close>, lines 302 to 359.\<close>

definition scrape_location_batch ::
  "env \<Rightarrow> string list \<Rightarrow> string set \<Rightarrow> world \<Rightarrow>
   (py_error + string dict \<times> string set) \<times> world" where
  "scrape_location_batch env location_codes failed_codes w =
     (let tasks = location_tasks (loc_files w) failed_codes location_codes
      in if tasks = [] then (Inr ([], failed_codes), w)
         else case gather env LocationRequest tasks w of
           (results, w1) \<Rightarrow>
             (case location_results env (zip tasks results) ([], {}) w1 of
                (Inl e, w2) \<Rightarrow> (Inl e, w2)
              | (Inr (location_to_uln, new_failed_codes), w2) \<Rightarrow>
                  (Inr (location_to_uln, failed_codes \<union> new_failed_codes), w2)))"

subsection \<open>Status of one batch\<close>

text \<open>
  The body of the loop over the results in \<^verbatim>\<open>scrape_machine_status_batch\<close>, lines
  388 to 406, on the pair \<open>(success_count, codes_to_parse)\<close>.
\<close>

fun status_result ::
  "env \<Rightarrow> string \<Rightarrow> string \<times> string \<Rightarrow> gathered \<Rightarrow> nat \<times> string list \<Rightarrow> world \<Rightarrow>
   (nat \<times> string list) \<times> world" where
  "status_result env request_time (code, uln) Raised (success_count, codes_to_parse) w =
     ((success_count, codes_to_parse), w)"
| "status_result env request_time (code, uln) (Returned data status_code)
       (success_count, codes_to_parse) w =
     (if data = JNull then ((success_count, codes_to_parse), w)
      else case save_status_json env code uln request_time w of
             (saved, w') \<Rightarrow>
               (if saved then ((Suc success_count, codes_to_parse @ [code]), w')
                else ((success_count, codes_to_parse), w')))"

fun status_results ::
  "env \<Rightarrow> string \<Rightarrow> ((string \<times> string) \<times> gathered) list \<Rightarrow> nat \<times> string list \<Rightarrow> world \<Rightarrow>
   (nat \<times> string list) \<times> world" where
  "status_results env request_time [] acc w = (acc, w)"
| "status_results env request_time ((item, result) # rest) acc w =
     (case status_result env request_time item result acc w of
        (acc', w') \<Rightarrow> status_results env request_time rest acc' w')"

text \<open>
  The calls of \<^verbatim>\<open>parse_and_cleanup_location_data\<close>, lines 409 and 410. The parser
  reads the artifacts of its code, appends to the table and removes the status files; it
  catches its own exceptions and touches neither a location file nor the failure store.
\<close>

fun parse_all :: "string list \<Rightarrow> world \<Rightarrow> world" where
  "parse_all [] w = w"
| "parse_all (code # rest) w = parse_all rest (emit (Parsed code) w)"

text \<open>\<^verbatim>\<open>scrape_machine_status_batch\<close>, lines 362 to 412.\<close>

definition scrape_machine_status_batch :: "env \<Rightarrow> string dict \<Rightarrow> world \<Rightarrow> nat \<times> world" where
  "scrape_machine_status_batch env location_to_uln w =
     (if location_to_uln = [] then (0, w)
      else case gather env StatusRequest (map snd location_to_uln) w of
        (results, w1) \<Rightarrow>
          (let request_time = utc_now env (tick w1)
           in case status_results env request_time (zip location_to_uln results) (0, [])
                     (step w1) of
                ((success_count, codes_to_parse), w2) \<Rightarrow>
                  (success_count, parse_all codes_to_parse w2)))"

subsection \<open>The run\<close>

text \<open>\<^verbatim>\<open>get_existing_locations\<close>, lines 415 to 429, with the dict built so far.\<close>

fun get_existing_locations ::
  "(string \<Rightarrow> file_state) \<Rightarrow> string list \<Rightarrow> string dict \<Rightarrow> py_error + string dict" where
  "get_existing_locations files [] location_to_uln = Inr location_to_uln"
| "get_existing_locations files (code # rest) location_to_uln =
     (let data = load_json (files code)
      in if truthy data
         then (case location_uln data of
                 Inl e \<Rightarrow>
                   (if e = KeyError then get_existing_locations files rest location_to_uln
                    else Inl e)
               | Inr uln \<Rightarrow>
                   get_existing_locations files rest (dict_set location_to_uln code uln))
         else get_existing_locations files rest location_to_uln)"

text \<open>
  The batches of \<^verbatim>\<open>for i in range(0, len(xs), size): xs[i : i + size]\<close>, each with its
  \<^verbatim>\<open>batch_num = i // size + 1\<close>. Both loops run with a size of at least five.
\<close>

definition batches :: "nat \<Rightarrow> 'a list \<Rightarrow> (int \<times> 'a list) list" where
  "batches batch_size xs =
     map (\<lambda>j. (int j + 1, take batch_size (drop (j * batch_size) xs)))
       [0 ..< (length xs + batch_size - 1) div batch_size]"

text \<open>
  The wait after a batch, lines 533 to 540 and 616 to 620: nothing after the last batch,
  otherwise the rest of the planned interval if any is left.
\<close>

definition batch_cooldown :: "env \<Rightarrow> rat \<Rightarrow> int \<Rightarrow> int \<Rightarrow> rat \<Rightarrow> world \<Rightarrow> world" where
  "batch_cooldown env batch_interval total_batches batch_num batch_start w =
     (if batch_num < total_batches
      then (let elapsed = loop_time env (tick w) - batch_start;
                sleep_time = max 0 (batch_interval - elapsed)
            in if 0 < sleep_time then emit (Sleep sleep_time) (step w) else step w)
      else w)"

text \<open>The loop over the location batches, lines 517 to 540.\<close>

fun location_batches ::
  "env \<Rightarrow> rat \<Rightarrow> int \<Rightarrow> (int \<times> string list) list \<Rightarrow> string dict \<times> string set \<Rightarrow> world \<Rightarrow>
   (py_error + string dict \<times> string set) \<times> world" where
  "location_batches env location_batch_interval total_location_batches [] acc w = (Inr acc, w)"
| "location_batches env location_batch_interval total_location_batches
       ((batch_num, batch) # rest) (new_locations, failed_codes) w =
     (let batch_start = loop_time env (tick w)
      in case scrape_location_batch env batch failed_codes (step w) of
           (Inl e, w1) \<Rightarrow> (Inl e, w1)
         | (Inr (batch_locations, failed_codes'), w1) \<Rightarrow>
             location_batches env location_batch_interval total_location_batches rest
               (dict_update new_locations batch_locations, failed_codes')
               (batch_cooldown env location_batch_interval total_location_batches
                  batch_num batch_start w1))"

text \<open>
  Phase 1, lines 493 to 549: the updated \<open>existing_locations\<close> and \<open>failed_codes\<close>.
\<close>

definition location_phase ::
  "env \<Rightarrow> string list \<Rightarrow> int \<Rightarrow> int \<Rightarrow> string set \<Rightarrow> string dict \<Rightarrow> world \<Rightarrow>
   (py_error + string dict \<times> string set) \<times> world" where
  "location_phase env codes_needing_location interval_seconds max_concurrent failed_codes
       existing_locations w =
     (if codes_needing_location = [] then (Inr (existing_locations, failed_codes), w)
      else case calculate_batch_parameters (int (length codes_needing_location))
                  interval_seconds 5 max_concurrent of
        Inl e \<Rightarrow> (Inl e, w)
      | Inr (location_batch_size, location_batch_interval) \<Rightarrow>
          (case true_div (int (length codes_needing_location)) location_batch_size of
             Inl e \<Rightarrow> (Inl e, w)
           | Inr q \<Rightarrow>
               (case location_batches env location_batch_interval \<lceil>q\<rceil>
                       (batches (nat location_batch_size) codes_needing_location)
                       ([], failed_codes) w of
                  (Inl e, w1) \<Rightarrow> (Inl e, w1)
                | (Inr (new_locations, failed_codes'), w1) \<Rightarrow>
                    (Inr (dict_update existing_locations new_locations, failed_codes'),
                     save_failed_codes env failed_codes' w1))))"

text \<open>The loop over the status batches of one cycle, lines 600 to 620.\<close>

fun status_batches ::
  "env \<Rightarrow> rat \<Rightarrow> int \<Rightarrow> (int \<times> string dict) list \<Rightarrow> nat \<Rightarrow> world \<Rightarrow> nat \<times> world" where
  "status_batches env status_batch_interval total_status_batches [] total_success w =
     (total_success, w)"
| "status_batches env status_batch_interval total_status_batches
       ((batch_num, batch_dict) # rest) total_success w =
     (let batch_start = loop_time env (tick w)
      in case scrape_machine_status_batch env batch_dict (step w) of
           (success_count, w1) \<Rightarrow>
             status_batches env status_batch_interval total_status_batches rest
               (total_success + success_count)
               (batch_cooldown env status_batch_interval total_status_batches
                  batch_num batch_start w1))"

text \<open>One cycle, the body of \<^verbatim>\<open>while True\<close>, lines 591 to 637.\<close>

definition polling_cycle ::
  "env \<Rightarrow> int \<Rightarrow> rat \<Rightarrow> int \<Rightarrow> nat \<Rightarrow> string dict \<Rightarrow> world \<Rightarrow> world" where
  "polling_cycle env interval_seconds status_batch_interval total_status_batches
       status_batch_size location_items w =
     (let cycle_start_time = loop_time env (tick w)
      in case status_batches env status_batch_interval total_status_batches
                (batches status_batch_size location_items) 0 (step w) of
           (total_success, w1) \<Rightarrow>
             (let cycle_duration = loop_time env (tick w1) - cycle_start_time;
                  remaining_cycle_time = of_int interval_seconds - cycle_duration
              in if 0 < remaining_cycle_time then emit (Sleep remaining_cycle_time) (step w1)
                 else emit OverrunWarning (step w1)))"

text \<open>
  The loop \<^verbatim>\<open>while True\<close> never ends by itself; \<open>cycles\<close> is the number of cycles
  completed before the interrupt stops it.
\<close>

fun polling_loop ::
  "env \<Rightarrow> int \<Rightarrow> rat \<Rightarrow> int \<Rightarrow> nat \<Rightarrow> string dict \<Rightarrow> nat \<Rightarrow> world \<Rightarrow> world" where
  "polling_loop env interval_seconds status_batch_interval total_status_batches
       status_batch_size location_items 0 w = w"
| "polling_loop env interval_seconds status_batch_interval total_status_batches
       status_batch_size location_items (Suc cycles) w =
     polling_loop env interval_seconds status_batch_interval total_status_batches
       status_batch_size location_items cycles
       (polling_cycle env interval_seconds status_batch_interval total_status_batches
          status_batch_size location_items w)"

text \<open>Phase 2, lines 557 to 643.\<close>

definition status_phase ::
  "env \<Rightarrow> nat \<Rightarrow> bool \<Rightarrow> rat \<Rightarrow> int \<Rightarrow> int \<Rightarrow> string dict \<Rightarrow> world \<Rightarrow>
   (py_error + unit) \<times> world" where
  "status_phase env cycles needed_location start_time interval_seconds max_concurrent
       existing_locations w =
     (let phase1_duration = loop_time env (tick w) - start_time;
          w1 = (if needed_location \<and> phase1_duration < of_int interval_seconds
                then emit (Sleep (of_int interval_seconds - phase1_duration)) (step w)
                else step w)
      in case calculate_batch_parameters (int (length existing_locations))
                interval_seconds 5 max_concurrent of
           Inl e \<Rightarrow> (Inl e, w1)
         | Inr (status_batch_size, status_batch_interval) \<Rightarrow>
             (case true_div (int (length existing_locations)) status_batch_size of
                Inl e \<Rightarrow> (Inl e, w1)
              | Inr q \<Rightarrow>
                  (Inr (),
                   polling_loop env interval_seconds status_batch_interval \<lceil>q\<rceil>
                     (nat status_batch_size) existing_locations cycles w1)))"

text \<open>
  \<^verbatim>\<open>run_bulk_scraper\<close>, lines 460 to 643, stopped after \<open>cycles\<close> cycles of phase 2.
\<close>

definition run_bulk_scraper ::
  "env \<Rightarrow> nat \<Rightarrow> string list \<Rightarrow> int \<Rightarrow> int \<Rightarrow> world \<Rightarrow> (py_error + unit) \<times> world" where
  "run_bulk_scraper env cycles location_codes interval_minutes max_concurrent w =
     (let failed_codes = load_failed_codes w;
          active_codes = filter (\<lambda>code. code \<notin> failed_codes) location_codes
      in case get_existing_locations (loc_files w) location_codes [] of
           Inl e \<Rightarrow> (Inl e, w)
         | Inr existing_locations \<Rightarrow>
             (let codes_needing_location =
                    filter (\<lambda>code. code \<notin> set (keys existing_locations)) active_codes;
                  interval_seconds = interval_minutes * 60;
                  start_time = loop_time env (tick w)
              in case location_phase env codes_needing_location interval_seconds
                        max_concurrent failed_codes existing_locations (step w) of
                   (Inl e, w1) \<Rightarrow> (Inl e, w1)
                 | (Inr (existing_locations', failed_codes'), w1) \<Rightarrow>
                     (if existing_locations' = [] then (Inr (), w1)
                      else status_phase env cycles (codes_needing_location \<noteq> []) start_time
                             interval_seconds max_concurrent existing_locations' w1)))"

subsection \<open>Reading a trace\<close>

text \<open>The parts of a trace that the properties below speak about, in order.\<close>

definition location_requests :: "event list \<Rightarrow> string list" where
  "location_requests evs = concat (map (\<lambda>e. case e of LocationRequest c \<Rightarrow> [c] | _ \<Rightarrow> []) evs)"

definition status_requests :: "event list \<Rightarrow> string list" where
  "status_requests evs = concat (map (\<lambda>e. case e of StatusRequest u \<Rightarrow> [u] | _ \<Rightarrow> []) evs)"

definition stamps :: "event list \<Rightarrow> string list" where
  "stamps evs = concat (map (\<lambda>e. case e of StatusSaved c u t \<Rightarrow> [t] | _ \<Rightarrow> []) evs)"

definition saved_codes :: "event list \<Rightarrow> string list" where
  "saved_codes evs = concat (map (\<lambda>e. case e of StatusSaved c u t \<Rightarrow> [c] | _ \<Rightarrow> []) evs)"

definition parsed_codes :: "event list \<Rightarrow> string list" where
  "parsed_codes evs = concat (map (\<lambda>e. case e of Parsed c \<Rightarrow> [c] | _ \<Rightarrow> []) evs)"

definition flushes :: "event list \<Rightarrow> string set list" where
  "flushes evs = concat (map (\<lambda>e. case e of FailedCodesFlush s \<Rightarrow> [s] | _ \<Rightarrow> []) evs)"

definition sleeps :: "event list \<Rightarrow> rat list" where
  "sleeps evs = concat (map (\<lambda>e. case e of Sleep d \<Rightarrow> [d] | _ \<Rightarrow> []) evs)"

definition warnings :: "event list \<Rightarrow> nat" where
  "warnings evs = length (filter (\<lambda>e. e = OverrunWarning) evs)"

subsection \<open>A sample environment and sample states\<close>

text \<open>
  Every interaction takes one second. The location endpoint answers 404 for \<open>W8\<close>, times
  out for \<open>W9\<close> and resolves \<open>Wn\<close> to \<open>Un\<close> otherwise; the status endpoint answers 404 for
  \<open>U4\<close>. Every write succeeds.
\<close>

definition location_payload :: "string \<Rightarrow> json" where
  "location_payload uln = JObj [(''location'', JObj [(''uln'', JStr uln)])]"

definition sample_env :: env where
  "sample_env =
     \<lparr> loop_time = (\<lambda>k. of_nat k),
       utc_now = (\<lambda>k. if k < 12 then ''2025-01-01T00:00:09.0000Z''
                       else ''2025-01-01T00:00:18.0000Z''),
       reply = (\<lambda>k key.
         if key = ''W8'' \<or> key = ''U4'' then Completes (Response 404 JNull)
         else if key = ''W9'' then Completes Timeout
         else Completes (Response 200 (location_payload (''U'' @ drop 1 key)))),
       write_file = (\<lambda>k. Written) \<rparr>"


text \<open>A location artifact for \<open>W1\<close> on disk, and \<open>W1\<close> in the failure store.\<close>

definition cached_world :: world where
  "cached_world =
     \<lparr> loc_files = (\<lambda>code. if code = ''W1'' then Holds (location_payload ''U1'') else Absent),
       failed_store = Some {''W1''}, trace = [], tick = 0 \<rparr>"

definition six_items :: "string dict" where
  "six_items = [(''W1'', ''U1''), (''W2'', ''U2''), (''W3'', ''U3''),
                (''W4'', ''U4''), (''W5'', ''U5''), (''W6'', ''U6'')]"

text \<open>The items of a batch whose request returned a payload.\<close>

definition answered :: "((string \<times> string) \<times> gathered) list \<Rightarrow> (string \<times> string) set" where
  "answered rs = {item. \<exists>d s. (item, Returned d s) \<in> set rs \<and> d \<noteq> JNull}"

section \<open>Properties of the batch planner\<close>

lemma py_round_nearest: "\<bar>of_int (py_round x) - x\<bar> \<le> 1 / 2"
proof -
  define d where "d = x - of_int \<lfloor>x\<rfloor>"
  have d: "0 \<le> d" "d < 1" unfolding d_def by linarith+
  have x: "x = of_int \<lfloor>x\<rfloor> + d" by (simp add: d_def)
  have "py_round x = \<lfloor>x\<rfloor> \<and> d \<le> 1 / 2 \<or> py_round x = \<lfloor>x\<rfloor> + 1 \<and> 1 / 2 \<le> d"
    unfolding py_round_def Let_def d_def[symmetric] by auto
  then show ?thesis
  proof
    assume "py_round x = \<lfloor>x\<rfloor> \<and> d \<le> 1 / 2"
    then have "of_int (py_round x) - x = - d" "d \<le> 1 / 2" using x by simp_all
    with d show ?thesis by simp
  next
    assume "py_round x = \<lfloor>x\<rfloor> + 1 \<and> 1 / 2 \<le> d"
    then have "of_int (py_round x) - x = 1 - d" "1 / 2 \<le> d" using x by simp_all
    with d show ?thesis by simp
  qed
qed

lemma py_round_tie_even: "x - of_int \<lfloor>x\<rfloor> = 1 / 2 \<Longrightarrow> even (py_round x)"
  by (simp add: py_round_def Let_def)

lemma clamp_in_range: "lo \<le> hi \<Longrightarrow> lo \<le> clamp x lo hi \<and> clamp x lo hi \<le> hi"
  by (simp add: clamp_def)

lemma clamp_cases:
  "lo \<le> hi \<Longrightarrow> clamp x lo hi = (if x < lo then lo else if hi < x then hi else x)"
  by (simp add: clamp_def)

lemma batch_size_zero_iff: "max mn (min (max 1 r) mx) = 0 \<longleftrightarrow> max mn mx = (0::int)"
  by (auto simp: max_def min_def)

lemma calculate_batch_parameters_raises:
  assumes "t \<noteq> 0" and "i = 0 \<or> max mn mx = 0"
  shows "calculate_batch_parameters t i mn mx = Inl ZeroDivisionError"
  using assms batch_size_zero_iff[of mn "py_round (of_int t / of_int i)" mx]
  by (auto simp: calculate_batch_parameters_def true_div_def Let_def)


text \<open>The scenarios of the specification, section 8.\<close>

lemma plan_zero: "calculate_batch_parameters 0 i mn mx = Inr (0, 0)"
  by (simp add: calculate_batch_parameters_def)

lemma plan_100_900: "calculate_batch_parameters 100 900 5 50 = Inr (5, 45)"
  by code_simp

lemma plan_7_900: "calculate_batch_parameters 7 900 5 50 = Inr (5, 450)"
  by code_simp







section \<open>The state of a run\<close>

lemma trace_emit [simp]: "trace (emit e w) = trace w @ [e]"
  and tick_emit [simp]: "tick (emit e w) = tick w"
  and loc_files_emit [simp]: "loc_files (emit e w) = loc_files w"
  and failed_store_emit [simp]: "failed_store (emit e w) = failed_store w"
  by (simp_all add: emit_def)

lemma trace_step [simp]: "trace (step w) = trace w"
  and tick_step [simp]: "tick (step w) = Suc (tick w)"
  and loc_files_step [simp]: "loc_files (step w) = loc_files w"
  and failed_store_step [simp]: "failed_store (step w) = failed_store w"
  by (simp_all add: step_def)

lemma location_requests_simps [simp]:
  "location_requests [] = []"
  "location_requests (xs @ ys) = location_requests xs @ location_requests ys"
  "location_requests (e # xs) = (case e of LocationRequest c \<Rightarrow> [c] | _ \<Rightarrow> []) @ location_requests xs"
  by (simp_all add: location_requests_def)

lemma status_requests_simps [simp]:
  "status_requests [] = []"
  "status_requests (xs @ ys) = status_requests xs @ status_requests ys"
  "status_requests (e # xs) = (case e of StatusRequest u \<Rightarrow> [u] | _ \<Rightarrow> []) @ status_requests xs"
  by (simp_all add: status_requests_def)

lemma stamps_simps [simp]:
  "stamps [] = []"
  "stamps (xs @ ys) = stamps xs @ stamps ys"
  "stamps (e # xs) = (case e of StatusSaved c u t \<Rightarrow> [t] | _ \<Rightarrow> []) @ stamps xs"
  by (simp_all add: stamps_def)

lemma saved_codes_simps [simp]:
  "saved_codes [] = []"
  "saved_codes (xs @ ys) = saved_codes xs @ saved_codes ys"
  "saved_codes (e # xs) = (case e of StatusSaved c u t \<Rightarrow> [c] | _ \<Rightarrow> []) @ saved_codes xs"
  by (simp_all add: saved_codes_def)

lemma parsed_codes_simps [simp]:
  "parsed_codes [] = []"
  "parsed_codes (xs @ ys) = parsed_codes xs @ parsed_codes ys"
  "parsed_codes (e # xs) = (case e of Parsed c \<Rightarrow> [c] | _ \<Rightarrow> []) @ parsed_codes xs"
  by (simp_all add: parsed_codes_def)

lemma flushes_simps [simp]:
  "flushes [] = []"
  "flushes (xs @ ys) = flushes xs @ flushes ys"
  "flushes (e # xs) = (case e of FailedCodesFlush s \<Rightarrow> [s] | _ \<Rightarrow> []) @ flushes xs"
  by (simp_all add: flushes_def)

lemma sleeps_simps [simp]:
  "sleeps [] = []"
  "sleeps (xs @ ys) = sleeps xs @ sleeps ys"
  "sleeps (e # xs) = (case e of Sleep d \<Rightarrow> [d] | _ \<Rightarrow> []) @ sleeps xs"
  by (simp_all add: sleeps_def)

lemma warnings_simps [simp]:
  "warnings [] = 0"
  "warnings (xs @ ys) = warnings xs + warnings ys"
  "warnings (e # xs) = (if e = OverrunWarning then 1 else 0) + warnings xs"
  by (simp_all add: warnings_def)

text \<open>The sample payload carries its identifier.\<close>

lemma location_payload_truthy [simp]:
  "location_payload u \<noteq> JNull" "truthy (location_payload u)"
  by (simp_all add: location_payload_def)

lemma location_uln_payload: "location_uln (location_payload u) = Inr (strip u)"
  by (simp add: location_uln_def location_payload_def)

section \<open>Resolution of one batch\<close>





lemma location_tasks_empty:
  assumes "\<forall>code\<in>set location_codes. code \<in> failed_codes \<or> exists_file (files code)"
  shows "location_tasks files failed_codes location_codes = []"
  using assms by (auto simp: location_tasks_def filter_empty_conv)



text \<open>
  C6: when every code of the batch is in the failure set or has its location file on
  disk, \<open>scrape_location_batch\<close> creates no task, so it issues no request and changes
  nothing, and it returns the empty map with the failure set it was given.
\<close>

theorem scrape_location_batch_idempotent:
  assumes "\<forall>code\<in>set location_codes. code \<in> failed_codes \<or> exists_file (loc_files w code)"
  shows "location_tasks (loc_files w) failed_codes location_codes = [] \<and>
         scrape_location_batch env location_codes failed_codes w = (Inr ([], failed_codes), w)"
  using location_tasks_empty[OF assms] by (simp add: scrape_location_batch_def)

theorem scrape_location_batch_idempotent_witness:
  "exists_file (loc_files cached_world ''W1'') \<and> ''W8'' \<in> {''W8''} \<and>
   location_tasks (loc_files cached_world) {''W8''} [''W1'', ''W8''] = [] \<and>
   scrape_location_batch sample_env [''W1'', ''W8''] {''W8''} cached_world
     = (Inr ([], {''W8''}), cached_world)"
proof -
  have h: "\<forall>code\<in>set [''W1'', ''W8''].
             code \<in> {''W8''} \<or> exists_file (loc_files cached_world code)"
    by (simp add: cached_world_def exists_file_def)
  from scrape_location_batch_idempotent[OF h, of sample_env] h show ?thesis by simp
qed



section \<open>Status of one batch\<close>

lemma gather_effect:
  "gather env request ks w = (rs, w') \<Longrightarrow>
     trace w' = trace w @ map request ks \<and> tick w' = tick w + length ks \<and>
     loc_files w' = loc_files w \<and> failed_store w' = failed_store w \<and> length rs = length ks"
proof (induction ks arbitrary: w rs w')
  case Nil
  then show ?case by simp
next
  case (Cons k ks)
  then show ?case by (auto split: prod.splits)
qed

lemma gather_results:
  "fst (gather env request ks w) = map (\<lambda>(i, k). gather1 (reply env (tick w + i) k)) (zip [0 ..< length ks] ks)"
proof (induction ks arbitrary: w)
  case Nil
  then show ?case by simp
next
  case (Cons k ks)
  have "zip [0 ..< Suc (length ks)] (k # ks) = (0, k) # zip (map Suc [0 ..< length ks]) ks"
    by (simp add: upt_conv_Cons map_Suc_upt del: upt_Suc)
  then show ?case using Cons[of "emit (request k) (step w)"]
    by (simp add: split_def zip_map1 comp_def del: upt_Suc)
qed

lemma events_of_requests [simp]:
  "status_requests (map StatusRequest us) = us"
  "location_requests (map StatusRequest us) = []"
  "stamps (map StatusRequest us) = []"
  "saved_codes (map StatusRequest us) = []"
  "parsed_codes (map StatusRequest us) = []"
  "flushes (map StatusRequest us) = []"
  "sleeps (map StatusRequest us) = []"
  "warnings (map StatusRequest us) = 0"
  by (induction us) simp_all

lemma events_of_location_requests [simp]:
  "status_requests (map LocationRequest cs) = []"
  "location_requests (map LocationRequest cs) = cs"
  "stamps (map LocationRequest cs) = []"
  "saved_codes (map LocationRequest cs) = []"
  "parsed_codes (map LocationRequest cs) = []"
  "flushes (map LocationRequest cs) = []"
  "sleeps (map LocationRequest cs) = []"
  "warnings (map LocationRequest cs) = 0"
  by (induction cs) simp_all

lemma events_of_parses [simp]:
  "status_requests (map Parsed cs) = []"
  "location_requests (map Parsed cs) = []"
  "stamps (map Parsed cs) = []"
  "saved_codes (map Parsed cs) = []"
  "parsed_codes (map Parsed cs) = cs"
  "flushes (map Parsed cs) = []"
  "sleeps (map Parsed cs) = []"
  "warnings (map Parsed cs) = 0"
  by (induction cs) simp_all

lemma events_of_saves [simp]:
  "status_requests (map (\<lambda>(c, u). StatusSaved c u t) items) = []"
  "location_requests (map (\<lambda>(c, u). StatusSaved c u t) items) = []"
  "stamps (map (\<lambda>(c, u). StatusSaved c u t) items) = replicate (length items) t"
  "saved_codes (map (\<lambda>(c, u). StatusSaved c u t) items) = map fst items"
  "parsed_codes (map (\<lambda>(c, u). StatusSaved c u t) items) = []"
  "flushes (map (\<lambda>(c, u). StatusSaved c u t) items) = []"
  "sleeps (map (\<lambda>(c, u). StatusSaved c u t) items) = []"
  "warnings (map (\<lambda>(c, u). StatusSaved c u t) items) = 0"
  by (induction items) (simp_all add: split_def)

lemma events_of_requests_comp [simp]:
  "status_requests (map (StatusRequest \<circ> f) xs) = map f xs"
  "location_requests (map (StatusRequest \<circ> f) xs) = []"
  "stamps (map (StatusRequest \<circ> f) xs) = []"
  "saved_codes (map (StatusRequest \<circ> f) xs) = []"
  "parsed_codes (map (StatusRequest \<circ> f) xs) = []"
  "flushes (map (StatusRequest \<circ> f) xs) = []"
  "sleeps (map (StatusRequest \<circ> f) xs) = []"
  "warnings (map (StatusRequest \<circ> f) xs) = 0"
  by (induction xs) simp_all

lemma events_of_parses_comp [simp]:
  "status_requests (map (Parsed \<circ> f) xs) = []"
  "location_requests (map (Parsed \<circ> f) xs) = []"
  "stamps (map (Parsed \<circ> f) xs) = []"
  "saved_codes (map (Parsed \<circ> f) xs) = []"
  "parsed_codes (map (Parsed \<circ> f) xs) = map f xs"
  "flushes (map (Parsed \<circ> f) xs) = []"
  "sleeps (map (Parsed \<circ> f) xs) = []"
  "warnings (map (Parsed \<circ> f) xs) = 0"
  by (induction xs) simp_all

lemma parse_all_effect:
  "trace (parse_all cs w) = trace w @ map Parsed cs \<and> tick (parse_all cs w) = tick w \<and>
   loc_files (parse_all cs w) = loc_files w \<and> failed_store (parse_all cs w) = failed_store w"
  by (induction cs arbitrary: w) simp_all

lemma answered_Cons: "answered (r # rs) = answered [r] \<union> answered rs"
  unfolding answered_def by fastforce

lemma status_result_effect:
  assumes "status_result env rt item r (n, cs) w = ((n', cs'), w')"
  shows "\<exists>items. set items \<subseteq> answered [(item, r)] \<and>
           trace w' = trace w @ map (\<lambda>(c, u). StatusSaved c u rt) items \<and>
           cs' = cs @ map fst items \<and> n' = n + length items \<and>
           loc_files w' = loc_files w \<and> failed_store w' = failed_store w"
proof (cases r)
  case Raised
  with assms show ?thesis by (cases item) (auto intro: exI[of _ "[]"])
next
  case (Returned d s)
  obtain c u where item: "item = (c, u)" by (cases item)
  show ?thesis
  proof (cases "d = JNull")
    case True
    with assms Returned item show ?thesis by (auto intro: exI[of _ "[]"])
  next
    case False
    show ?thesis
    proof (cases "write_file env (tick w) = Written")
      case True
      with assms Returned item False
      have "trace w' = trace w @ [StatusSaved c u rt]" "cs' = cs @ [c]" "n' = Suc n"
           "loc_files w' = loc_files w" "failed_store w' = failed_store w"
        by (auto simp: save_status_json_def Let_def)
      then show ?thesis using Returned item False
        by (intro exI[of _ "[(c, u)]"]) (auto simp: answered_def)
    next
      case W: False
      with assms Returned item False
      have "trace w' = trace w" "cs' = cs" "n' = n"
           "loc_files w' = loc_files w" "failed_store w' = failed_store w"
        by (auto simp: save_status_json_def Let_def split: write_result.splits)
      then show ?thesis by (intro exI[of _ "[]"]) auto
    qed
  qed
qed

lemma status_results_effect:
  "status_results env rt rs (n, cs) w = ((n', cs'), w') \<Longrightarrow>
     \<exists>items. set items \<subseteq> answered rs \<and>
       trace w' = trace w @ map (\<lambda>(c, u). StatusSaved c u rt) items \<and>
       cs' = cs @ map fst items \<and> n' = n + length items \<and>
       loc_files w' = loc_files w \<and> failed_store w' = failed_store w"
proof (induction rs arbitrary: n cs w)
  case Nil
  then show ?case by (auto intro: exI[of _ "[]"])
next
  case (Cons a rs)
  obtain item r where a: "a = (item, r)" by (cases a)
  obtain n1 cs1 w1 where 1: "status_result env rt item r (n, cs) w = ((n1, cs1), w1)"
    by (metis surj_pair)
  with Cons.prems a have 2: "status_results env rt rs (n1, cs1) w1 = ((n', cs'), w')" by simp
  from status_result_effect[OF 1] obtain xs where xs:
    "set xs \<subseteq> answered [(item, r)]"
    "trace w1 = trace w @ map (\<lambda>(c, u). StatusSaved c u rt) xs"
    "cs1 = cs @ map fst xs" "n1 = n + length xs"
    "loc_files w1 = loc_files w" "failed_store w1 = failed_store w" by blast
  from Cons.IH[OF 2] obtain ys where ys:
    "set ys \<subseteq> answered rs"
    "trace w' = trace w1 @ map (\<lambda>(c, u). StatusSaved c u rt) ys"
    "cs' = cs1 @ map fst ys" "n' = n1 + length ys"
    "loc_files w' = loc_files w1" "failed_store w' = failed_store w1" by blast
  have "set (xs @ ys) \<subseteq> answered (a # rs)"
    using xs(1) ys(1) a answered_Cons[of a rs] by auto
  then show ?case using xs ys
    by (intro exI[of _ "xs @ ys"]) simp
qed

lemma scrape_machine_status_batch_effect:
  assumes "scrape_machine_status_batch env batch w = (success_count, w')" and "batch \<noteq> []"
  shows "\<exists>items.
           set items \<subseteq> answered (zip batch (fst (gather env StatusRequest (map snd batch) w))) \<and>
           trace w' = trace w @ map StatusRequest (map snd batch)
             @ map (\<lambda>(c, u). StatusSaved c u (utc_now env (tick w + length batch))) items
             @ map Parsed (map fst items) \<and>
           success_count = length items \<and>
           loc_files w' = loc_files w \<and> failed_store w' = failed_store w"
proof -
  obtain rs w1 where g: "gather env StatusRequest (map snd batch) w = (rs, w1)"
    by (metis surj_pair)
  note ge = gather_effect[OF g]
  let ?rt = "utc_now env (tick w1)"
  obtain n cs w2 where r: "status_results env ?rt (zip batch rs) (0, []) (step w1) = ((n, cs), w2)"
    by (metis surj_pair)
  from assms g r have res: "success_count = n" "w' = parse_all cs w2"
    by (simp_all add: scrape_machine_status_batch_def Let_def)
  from status_results_effect[OF r] obtain items where items:
    "set items \<subseteq> answered (zip batch rs)"
    "trace w2 = trace (step w1) @ map (\<lambda>(c, u). StatusSaved c u ?rt) items"
    "cs = [] @ map fst items" "n = 0 + length items"
    "loc_files w2 = loc_files (step w1)" "failed_store w2 = failed_store (step w1)" by blast
  have rt: "?rt = utc_now env (tick w + length batch)" using ge by simp
  show ?thesis
    using items ge res parse_all_effect[of cs w2] g rt
    by (intro exI[of _ items]) simp
qed








section \<open>The polling phase\<close>

lemma scrape_machine_status_batch_frame:
  assumes "scrape_machine_status_batch env batch w = (success_count, w')"
  shows "status_requests (trace w') = status_requests (trace w) @ map snd batch"
    and "location_requests (trace w') = location_requests (trace w)"
    and "flushes (trace w') = flushes (trace w)"
    and "sleeps (trace w') = sleeps (trace w)"
    and "warnings (trace w') = warnings (trace w)"
    and "loc_files w' = loc_files w"
    and "failed_store w' = failed_store w"
proof -
  have "status_requests (trace w') = status_requests (trace w) @ map snd batch \<and>
        location_requests (trace w') = location_requests (trace w) \<and>
        flushes (trace w') = flushes (trace w) \<and> sleeps (trace w') = sleeps (trace w) \<and>
        warnings (trace w') = warnings (trace w) \<and> loc_files w' = loc_files w \<and>
        failed_store w' = failed_store w"
  proof (cases "batch = []")
    case True
    with assms show ?thesis by (simp add: scrape_machine_status_batch_def)
  next
    case False
    from scrape_machine_status_batch_effect[OF assms False] obtain items where
      t: "trace w' = trace w @ map StatusRequest (map snd batch)
             @ map (\<lambda>(c, u). StatusSaved c u (utc_now env (tick w + length batch))) items
             @ map Parsed (map fst items)"
      and fl: "loc_files w' = loc_files w" "failed_store w' = failed_store w" by blast
    show ?thesis unfolding t using fl by simp
  qed
  then show "status_requests (trace w') = status_requests (trace w) @ map snd batch"
    and "location_requests (trace w') = location_requests (trace w)"
    and "flushes (trace w') = flushes (trace w)"
    and "sleeps (trace w') = sleeps (trace w)"
    and "warnings (trace w') = warnings (trace w)"
    and "loc_files w' = loc_files w"
    and "failed_store w' = failed_store w" by simp_all
qed

lemma batch_cooldown_trace:
  "trace (batch_cooldown env ivl tot batch_num batch_start w) =
     trace w @ (let sleep_time = max 0 (ivl - (loop_time env (tick w) - batch_start))
                in if batch_num < tot \<and> 0 < sleep_time then [Sleep sleep_time] else [])"
  by (simp add: batch_cooldown_def Let_def)

lemma batch_cooldown_frame [simp]:
  "status_requests (trace (batch_cooldown env ivl tot batch_num batch_start w)) = status_requests (trace w)"
  "location_requests (trace (batch_cooldown env ivl tot batch_num batch_start w)) = location_requests (trace w)"
  "flushes (trace (batch_cooldown env ivl tot batch_num batch_start w)) = flushes (trace w)"
  "stamps (trace (batch_cooldown env ivl tot batch_num batch_start w)) = stamps (trace w)"
  "saved_codes (trace (batch_cooldown env ivl tot batch_num batch_start w)) = saved_codes (trace w)"
  "parsed_codes (trace (batch_cooldown env ivl tot batch_num batch_start w)) = parsed_codes (trace w)"
  "warnings (trace (batch_cooldown env ivl tot batch_num batch_start w)) = warnings (trace w)"
  "loc_files (batch_cooldown env ivl tot batch_num batch_start w) = loc_files w"
  "failed_store (batch_cooldown env ivl tot batch_num batch_start w) = failed_store w"
  by (simp_all add: batch_cooldown_def Let_def)

lemma batch_cooldown_sleeps_positive:
  assumes "\<forall>d\<in>set (sleeps (trace w)). d \<in> S \<or> 0 < d"
  shows "\<forall>d\<in>set (sleeps (trace (batch_cooldown env ivl tot batch_num batch_start w))). d \<in> S \<or> 0 < d"
  using assms by (auto simp: batch_cooldown_trace Let_def)

lemma status_batches_frame:
  "status_batches env ivl tot bs n w = (n', w') \<Longrightarrow>
     status_requests (trace w') = status_requests (trace w) @ concat (map (\<lambda>b. map snd (snd b)) bs) \<and>
     location_requests (trace w') = location_requests (trace w) \<and>
     flushes (trace w') = flushes (trace w) \<and>
     warnings (trace w') = warnings (trace w) \<and>
     loc_files w' = loc_files w \<and> failed_store w' = failed_store w"
proof (induction bs arbitrary: n w)
  case Nil
  then show ?case by simp
next
  case (Cons b bs)
  obtain batch_num batch where b: "b = (batch_num, batch)" by (cases b)
  obtain k w1 where s: "scrape_machine_status_batch env batch (step w) = (k, w1)"
    by (cases "scrape_machine_status_batch env batch (step w)")
  let ?w2 = "batch_cooldown env ivl tot batch_num (loop_time env (tick w)) w1"
  have "status_batches env ivl tot (b # bs) n w = status_batches env ivl tot bs (n + k) ?w2"
    unfolding b by (simp add: s Let_def)
  with Cons.prems have r: "status_batches env ivl tot bs (n + k) ?w2 = (n', w')" by simp
  note f = scrape_machine_status_batch_frame[OF s]
  note ih = Cons.IH[OF r]
  have 1: "status_requests (trace w') =
             status_requests (trace w) @ concat (map (\<lambda>b. map snd (snd b)) (b # bs))"
    using conjunct1[OF ih] f(1) b by simp
  have 2: "location_requests (trace w') = location_requests (trace w)"
    using conjunct1[OF conjunct2[OF ih]] f(2) by simp
  have 3: "flushes (trace w') = flushes (trace w)"
    using conjunct1[OF conjunct2[OF conjunct2[OF ih]]] f(3) by simp
  have 4: "warnings (trace w') = warnings (trace w)"
    using conjunct1[OF conjunct2[OF conjunct2[OF conjunct2[OF ih]]]] f(5) by simp
  have 5: "loc_files w' = loc_files w"
    using conjunct1[OF conjunct2[OF conjunct2[OF conjunct2[OF conjunct2[OF ih]]]]] f(6) by simp
  have 6: "failed_store w' = failed_store w"
    using conjunct2[OF conjunct2[OF conjunct2[OF conjunct2[OF conjunct2[OF ih]]]]] f(7) by simp
  from 1 2 3 4 5 6 show ?case by (intro conjI)
qed

lemma status_batches_sleeps:
  "status_batches env ivl tot bs n w = (n', w') \<Longrightarrow>
     \<forall>d\<in>set (sleeps (trace w)). d \<in> S \<or> 0 < d \<Longrightarrow>
     \<forall>d\<in>set (sleeps (trace w')). d \<in> S \<or> 0 < d"
proof (induction bs arbitrary: n w)
  case Nil
  then show ?case by simp
next
  case (Cons b bs)
  obtain batch_num batch where b: "b = (batch_num, batch)" by (cases b)
  obtain k w1 where s: "scrape_machine_status_batch env batch (step w) = (k, w1)"
    by (cases "scrape_machine_status_batch env batch (step w)")
  let ?w2 = "batch_cooldown env ivl tot batch_num (loop_time env (tick w)) w1"
  have "status_batches env ivl tot (b # bs) n w = status_batches env ivl tot bs (n + k) ?w2"
    unfolding b by (simp add: s Let_def)
  with Cons.prems(1) have r: "status_batches env ivl tot bs (n + k) ?w2 = (n', w')" by simp
  have "sleeps (trace w1) = sleeps (trace w)"
    using scrape_machine_status_batch_frame(4)[OF s] by simp
  with Cons.prems(2) have "\<forall>d\<in>set (sleeps (trace w1)). d \<in> S \<or> 0 < d" by simp
  then have "\<forall>d\<in>set (sleeps (trace ?w2)). d \<in> S \<or> 0 < d"
    by (rule batch_cooldown_sleeps_positive)
  with Cons.IH[OF r] show ?case .
qed

lemma concat_batches_take:
  "concat (map (\<lambda>j. take n (drop (j * n) xs)) [0 ..< k]) = take (k * n) xs"
proof (induction k)
  case 0
  then show ?case by simp
next
  case (Suc k)
  have "take (k * n) xs @ take n (drop (k * n) xs) = take (k * n + n) xs"
    by (simp add: take_add)
  with Suc show ?case by (simp add: add.commute)
qed

lemma batches_cover:
  assumes "0 < n"
  shows "concat (map snd (batches n xs)) = xs"
proof -
  let ?k = "(length xs + n - 1) div n"
  have "length xs \<le> ?k * n"
  proof -
    have "(length xs + n - 1) mod n < n" using assms by simp
    moreover have "?k * n + (length xs + n - 1) mod n = length xs + n - 1" by simp
    ultimately show ?thesis by linarith
  qed
  moreover have "concat (map snd (batches n xs)) = take (?k * n) xs"
    using concat_batches_take[of n xs ?k] by (simp add: batches_def comp_def)
  ultimately show ?thesis by simp
qed

lemma batches_requests:
  assumes "0 < n"
  shows "concat (map (\<lambda>b. map snd (snd b)) (batches n items)) = map snd items"
proof -
  have "concat (map (\<lambda>b. map snd (snd b)) (batches n items)) = map snd (concat (map snd (batches n items)))"
    by (simp add: map_concat comp_def)
  also have "\<dots> = map snd items" by (simp only: batches_cover[OF assms])
  finally show ?thesis .
qed



lemma polling_cycle_end:
  assumes "status_batches env ivl tot (batches n items) 0 (step w) = (k, w1)"
  shows "trace (polling_cycle env isec ivl tot n items w) =
           trace w1 @ (let remaining = of_int isec - (loop_time env (tick w1) - loop_time env (tick w))
                       in if 0 < remaining then [Sleep remaining] else [OverrunWarning])"
  using assms by (simp add: polling_cycle_def Let_def)

lemma polling_cycle_frame:
  assumes "0 < n"
  shows "status_requests (trace (polling_cycle env isec ivl tot n items w))
           = status_requests (trace w) @ map snd items \<and>
         location_requests (trace (polling_cycle env isec ivl tot n items w)) = location_requests (trace w) \<and>
         flushes (trace (polling_cycle env isec ivl tot n items w)) = flushes (trace w) \<and>
         loc_files (polling_cycle env isec ivl tot n items w) = loc_files w \<and>
         failed_store (polling_cycle env isec ivl tot n items w) = failed_store w \<and>
         ((\<forall>d\<in>set (sleeps (trace w)). d \<in> S \<or> 0 < d) \<longrightarrow>
          (\<forall>d\<in>set (sleeps (trace (polling_cycle env isec ivl tot n items w))). d \<in> S \<or> 0 < d))"
proof -
  obtain k w1 where s: "status_batches env ivl tot (batches n items) 0 (step w) = (k, w1)"
    by (metis surj_pair)
  note f = status_batches_frame[OF s] and e = polling_cycle_end[OF s, of isec]
  note fs = status_batches_sleeps[OF s, of S]
  note r = batches_requests[OF assms, of items]
  have fields: "loc_files (polling_cycle env isec ivl tot n items w) = loc_files w1"
    "failed_store (polling_cycle env isec ivl tot n items w) = failed_store w1"
    using s by (simp_all add: polling_cycle_def Let_def)
  have sl: "sleeps (trace (polling_cycle env isec ivl tot n items w)) = sleeps (trace w1) \<or>
            (\<exists>d. 0 < d \<and> sleeps (trace (polling_cycle env isec ivl tot n items w)) = sleeps (trace w1) @ [d])"
    unfolding e by (simp add: Let_def)
  have "(\<forall>d\<in>set (sleeps (trace w)). d \<in> S \<or> 0 < d) \<longrightarrow>
          (\<forall>d\<in>set (sleeps (trace (polling_cycle env isec ivl tot n items w))). d \<in> S \<or> 0 < d)"
    using fs sl by auto
  moreover have "status_requests (trace (polling_cycle env isec ivl tot n items w))
           = status_requests (trace w) @ map snd items"
    unfolding e using f r by (simp add: Let_def)
  moreover have "location_requests (trace (polling_cycle env isec ivl tot n items w)) = location_requests (trace w)"
    unfolding e using f by (simp add: Let_def)
  moreover have "flushes (trace (polling_cycle env isec ivl tot n items w)) = flushes (trace w)"
    unfolding e using f by (simp add: Let_def)
  ultimately show ?thesis using fields f by simp
qed

lemma polling_loop_frame:
  assumes "0 < n"
  shows "status_requests (trace (polling_loop env isec ivl tot n items cycles w))
           = status_requests (trace w) @ concat (replicate cycles (map snd items)) \<and>
         location_requests (trace (polling_loop env isec ivl tot n items cycles w)) = location_requests (trace w) \<and>
         flushes (trace (polling_loop env isec ivl tot n items cycles w)) = flushes (trace w) \<and>
         loc_files (polling_loop env isec ivl tot n items cycles w) = loc_files w \<and>
         failed_store (polling_loop env isec ivl tot n items cycles w) = failed_store w \<and>
         ((\<forall>d\<in>set (sleeps (trace w)). d \<in> S \<or> 0 < d) \<longrightarrow>
          (\<forall>d\<in>set (sleeps (trace (polling_loop env isec ivl tot n items cycles w))). d \<in> S \<or> 0 < d))"
proof (induction cycles arbitrary: w)
  case 0
  then show ?case by simp
next
  case (Suc cycles)
  define w1 where "w1 = polling_cycle env isec ivl tot n items w"
  define w2 where "w2 = polling_loop env isec ivl tot n items cycles w1"
  have unroll: "polling_loop env isec ivl tot n items (Suc cycles) w = w2"
    by (simp add: w1_def w2_def)
  have c: "status_requests (trace w1) = status_requests (trace w) @ map snd items"
    "location_requests (trace w1) = location_requests (trace w)"
    "flushes (trace w1) = flushes (trace w)"
    "loc_files w1 = loc_files w" "failed_store w1 = failed_store w"
    "(\<forall>d\<in>set (sleeps (trace w)). d \<in> S \<or> 0 < d) \<longrightarrow>
     (\<forall>d\<in>set (sleeps (trace w1)). d \<in> S \<or> 0 < d)"
    using polling_cycle_frame[OF assms, of env isec ivl tot items w S]
    unfolding w1_def by blast+
  have ih: "status_requests (trace w2) = status_requests (trace w1) @ concat (replicate cycles (map snd items))"
    "location_requests (trace w2) = location_requests (trace w1)"
    "flushes (trace w2) = flushes (trace w1)"
    "loc_files w2 = loc_files w1" "failed_store w2 = failed_store w1"
    "(\<forall>d\<in>set (sleeps (trace w1)). d \<in> S \<or> 0 < d) \<longrightarrow>
     (\<forall>d\<in>set (sleeps (trace w2)). d \<in> S \<or> 0 < d)"
    using Suc.IH[of w1] unfolding w2_def by blast+
  have 1: "status_requests (trace w2) =
             status_requests (trace w) @ concat (replicate (Suc cycles) (map snd items))"
    using c(1) ih(1) by simp
  have 6: "(\<forall>d\<in>set (sleeps (trace w)). d \<in> S \<or> 0 < d) \<longrightarrow>
           (\<forall>d\<in>set (sleeps (trace w2)). d \<in> S \<or> 0 < d)"
    using c(6) ih(6) by blast
  show ?case unfolding unroll
    using 1 6 c(2-5) ih(2-5) by simp
qed




lemma answered_failed:
  assumes "distinct (map fst rs)" and "(item, gather1 t) \<in> set rs"
    and "t = Escapes \<or> t = Completes Timeout \<or> t = Completes ClientError \<or>
         (\<exists>s b. t = Completes (Response s b) \<and> s \<noteq> 200)"
  shows "item \<notin> answered rs"
proof
  assume "item \<in> answered rs"
  then obtain d s where r: "(item, Returned d s) \<in> set rs" "d \<noteq> JNull"
    by (auto simp: answered_def)
  from assms(1,2) r(1) have "gather1 t = Returned d s"
    by (meson eq_key_imp_eq_value)
  with assms(3) r(2) show False by (auto split: if_splits)
qed

text \<open>
  C10: the polling phase never changes the failure store and never flushes it, and every
  cycle requests the status of every resolved entity again, whatever the earlier replies
  were. Within a batch the artifacts saved and the codes parsed are those of one list of
  items whose request returned a payload; an item whose request raised, timed out, failed
  or returned a status other than 200 (404 included) is not among them.
\<close>

theorem polling_leaves_failure_cache:
  "(0 < n \<longrightarrow>
      failed_store (polling_loop env isec ivl tot n items cycles w) = failed_store w \<and>
      flushes (trace (polling_loop env isec ivl tot n items cycles w)) = flushes (trace w) \<and>
      status_requests (trace (polling_loop env isec ivl tot n items cycles w))
        = status_requests (trace w) @ concat (replicate cycles (map snd items))) \<and>
   (scrape_machine_status_batch env batch w = (k, w') \<and> batch \<noteq> [] \<longrightarrow>
      (\<exists>saved.
          set saved \<subseteq> answered (zip batch (fst (gather env StatusRequest (map snd batch) w))) \<and>
          saved_codes (trace w') = saved_codes (trace w) @ map fst saved \<and>
          parsed_codes (trace w') = parsed_codes (trace w) @ map fst saved \<and>
          k = length saved)) \<and>
   (distinct (map fst rs) \<and> (item, gather1 t) \<in> set rs \<and>
    (t = Escapes \<or> t = Completes Timeout \<or> t = Completes ClientError \<or>
     (\<exists>s b. t = Completes (Response s b) \<and> s \<noteq> 200)) \<longrightarrow>
      item \<notin> answered rs)"
proof (intro conjI impI)
  assume n: "0 < n"
  note f = polling_loop_frame[OF n, of env isec ivl tot items cycles w "{}"]
  from f show "failed_store (polling_loop env isec ivl tot n items cycles w) = failed_store w"
    by blast
  from f show "flushes (trace (polling_loop env isec ivl tot n items cycles w)) = flushes (trace w)"
    by blast
  from f show "status_requests (trace (polling_loop env isec ivl tot n items cycles w))
        = status_requests (trace w) @ concat (replicate cycles (map snd items))"
    by blast
next
  assume a: "scrape_machine_status_batch env batch w = (k, w') \<and> batch \<noteq> []"
  then have 1: "scrape_machine_status_batch env batch w = (k, w')" and 2: "batch \<noteq> []"
    by simp_all
  from scrape_machine_status_batch_effect[OF 1 2] obtain saved where
    s: "set saved \<subseteq> answered (zip batch (fst (gather env StatusRequest (map snd batch) w)))"
    and t: "trace w' = trace w @ map StatusRequest (map snd batch)
             @ map (\<lambda>(c, u). StatusSaved c u (utc_now env (tick w + length batch))) saved
             @ map Parsed (map fst saved)"
    and k: "k = length saved" by blast
  have "saved_codes (trace w') = saved_codes (trace w) @ map fst saved"
    "parsed_codes (trace w') = parsed_codes (trace w) @ map fst saved"
    unfolding t by simp_all
  with s k show "\<exists>saved.
          set saved \<subseteq> answered (zip batch (fst (gather env StatusRequest (map snd batch) w))) \<and>
          saved_codes (trace w') = saved_codes (trace w) @ map fst saved \<and>
          parsed_codes (trace w') = parsed_codes (trace w) @ map fst saved \<and>
          k = length saved" by blast
next
  assume "distinct (map fst rs) \<and> (item, gather1 t) \<in> set rs \<and>
    (t = Escapes \<or> t = Completes Timeout \<or> t = Completes ClientError \<or>
     (\<exists>s b. t = Completes (Response s b) \<and> s \<noteq> 200))"
  then show "item \<notin> answered rs" using answered_failed by blast
qed

theorem polling_leaves_failure_cache_witness:
  "failed_store (polling_loop sample_env 60 30 2 5 six_items 2 cached_world) = Some {''W1''} \<and>
   flushes (trace (polling_loop sample_env 60 30 2 5 six_items 2 cached_world)) = [] \<and>
   status_requests (trace (polling_loop sample_env 60 30 2 5 six_items 2 cached_world))
     = [''U1'', ''U2'', ''U3'', ''U4'', ''U5'', ''U6'', ''U1'', ''U2'', ''U3'', ''U4'', ''U5'', ''U6''] \<and>
   (''W4'', ''U4'') \<notin> answered [((''W4'', ''U4''), gather1 (Completes (Response 404 JNull)))]"
proof -
  note a = polling_leaves_failure_cache[of 5 sample_env 60 30 2 six_items 2 cached_world _ _ _
      "[((''W4'', ''U4''), gather1 (Completes (Response 404 JNull)))]" "(''W4'', ''U4'')"
      "Completes (Response 404 JNull)"]
  have 1: "failed_store (polling_loop sample_env 60 30 2 5 six_items 2 cached_world) = Some {''W1''}"
    using a by (simp add: cached_world_def)
  have 2: "flushes (trace (polling_loop sample_env 60 30 2 5 six_items 2 cached_world)) = []"
    using a by (simp add: cached_world_def)
  have 3: "status_requests (trace (polling_loop sample_env 60 30 2 5 six_items 2 cached_world))
     = [''U1'', ''U2'', ''U3'', ''U4'', ''U5'', ''U6'', ''U1'', ''U2'', ''U3'', ''U4'', ''U5'', ''U6'']"
  proof -
    have "status_requests (trace (polling_loop sample_env 60 30 2 5 six_items 2 cached_world))
        = status_requests (trace cached_world) @ concat (replicate 2 (map snd six_items))"
      using a by simp
    then show ?thesis by (simp add: cached_world_def six_items_def numeral_2_eq_2)
  qed
  have 4: "(''W4'', ''U4'') \<notin> answered [((''W4'', ''U4''), gather1 (Completes (Response 404 JNull)))]"
    using a by simp
  from 1 2 3 4 show ?thesis by blast
qed

end
